theory Spec2Isabelle
  imports Main "HOL-Library.Word"
begin

unbundle bit_operations_syntax

section \<open>Data model\<close>

text \<open>
  The integer types of the messages are declared in headers outside the plugin sources.
  They are the fixed-width unsigned types of the DAQ message formats; arithmetic on them
  wraps around, which the word types reproduce. The detector id of a candidate is 16 bits
  wide: \<open>TimingTriggerCandidateMaker.cpp\<close> casts to \<open>uint16_t\<close> to fill it.
\<close>

type_synonym timestamp_t = "64 word"
type_synonym trigger_number_t = "64 word"
type_synonym run_number_t = "32 word"
type_synonym trigger_type_t = "16 word"
type_synonym detid_t = "16 word"
type_synonym metric_counter_type = "64 word"

subsection \<open>LivetimeCounter\<close>

text \<open>
  Modelled from the spec: the class \<open>LivetimeCounter\<close> (header
  \<open>trigger/LivetimeCounter.hpp\<close>) is used by \<open>ModuleLevelTrigger.cpp\<close> but its
  implementation is not among the sources. The spec (GateState, sections 3 and 4.1) gives
  the record \<open>current_state\<close>, \<open>entered_at\<close>, \<open>accumulated[state]\<close>, the transition
  "compute \<open>now - entered_at\<close>, add to \<open>accumulated[current_state]\<close>, set
  \<open>current_state\<close> to target, set \<open>entered_at = now\<close>" and the query "returns
  \<open>accumulated[state]\<close> plus the open interval if \<open>state == current_state\<close>".
  The clock reading \<open>now\<close> is an argument of every operation. Timestamps and durations
  are integers.
\<close>

datatype State = kLive | kPaused | kDead

text \<open>Modelled from the spec: the fields of the GateState record of section 3.\<close>

record LivetimeCounter =
  current_state :: State
  entered_at :: int
  accumulated :: "State \<Rightarrow> int"

text \<open>Modelled from the spec: the constructor \<open>LivetimeCounter(State)\<close>, called at time \<open>now\<close>.\<close>

definition LivetimeCounter_new :: "State \<Rightarrow> int \<Rightarrow> LivetimeCounter" where
  "LivetimeCounter_new st now =
     \<lparr>current_state = st, entered_at = now, accumulated = (\<lambda>_. 0)\<rparr>"

text \<open>Modelled from the spec: \<open>LivetimeCounter::set_state\<close>, the transition of section 4.1.\<close>

definition set_state :: "LivetimeCounter \<Rightarrow> State \<Rightarrow> int \<Rightarrow> LivetimeCounter" where
  "set_state lc target now =
     lc\<lparr>accumulated :=
          (accumulated lc)(current_state lc :=
             accumulated lc (current_state lc) + (now - entered_at lc)),
        current_state := target,
        entered_at := now\<rparr>"

text \<open>Modelled from the spec: \<open>LivetimeCounter::get_time\<close>, the query \<open>elapsed(state)\<close>.\<close>

definition get_time :: "LivetimeCounter \<Rightarrow> State \<Rightarrow> int \<Rightarrow> int" where
  "get_time lc st now =
     accumulated lc st + (if st = current_state lc then now - entered_at lc else 0)"

text \<open>A sequence of transitions: each one names its target state and the clock reading
  at which it happens.\<close>

fun transitions :: "LivetimeCounter \<Rightarrow> (State \<times> int) list \<Rightarrow> LivetimeCounter" where
  "transitions lc [] = lc"
| "transitions lc ((target, now) # ts) = transitions (set_state lc target now) ts"

subsection \<open>Candidates, decisions, inhibit messages\<close>

text \<open>\<open>dfmessages::GeoID\<close>: system type, region, element.\<close>

record GeoID =
  system_type :: "16 word"
  region :: "16 word"
  element :: "32 word"

text \<open>
  Modelled from the spec: the enumeration \<open>triggeralgs::TriggerCandidate::Type\<close> is
  declared outside the sources; the spec (sections 3 and 9) gives it as the closed variant
  "Timing, Other(code)". \<open>kOther code\<close> is an enumerator other than \<open>kTiming\<close>, with
  the value \<open>(int)tc.type\<close> of its conversion to \<open>int\<close>.
\<close>

datatype Type = kTiming | kOther "32 word"

text \<open>The activities of a candidate are never inspected by this code.\<close>

datatype TriggerActivity = TriggerActivity

record TriggerCandidate =
  time_start :: timestamp_t
  time_end :: timestamp_t
  time_candidate :: timestamp_t
  detid :: detid_t
  type :: Type
  algorithm :: "32 word"
  version :: "16 word"
  ta_list :: "TriggerActivity list"

record ComponentRequest =
  component :: GeoID
  window_begin :: timestamp_t
  window_end :: timestamp_t

datatype ReadoutType = kLocalized | kNotLocalized

record TriggerDecision =
  trigger_number :: trigger_number_t
  run_number :: run_number_t
  trigger_timestamp :: timestamp_t
  trigger_type :: trigger_type_t
  readout_type :: ReadoutType
  components :: "ComponentRequest list"

text \<open>\<open>dfmessages::TriggerInhibit\<close>; its field \<open>run_number\<close> is \<open>inhibit_run_number\<close> here.\<close>

record TriggerInhibit =
  busy :: bool
  inhibit_run_number :: run_number_t

subsection \<open>The module\<close>

text \<open>What the sender did with a decision: \<open>send\<close> returned, or threw an \<open>ers::Issue\<close>
  (a timeout or a transport error).\<close>

datatype send_result = SendOk | SendIssue

text \<open>The issues the module reports through \<open>ers\<close>, and the severity of a report.\<close>

datatype Issue =
    TriggerStartOfRun run_number_t
  | TriggerEndOfRun run_number_t
  | TriggerPaused
  | TriggerActive
  | TriggerInhibited run_number_t
  | SendFailure

datatype severity = ers_info | ers_warning | ers_error

text \<open>
  The members of \<open>ModuleLevelTrigger\<close> that the commands and the decision loop read or
  write, and two records of the module's effects on its surroundings: \<open>td_sender\<close>,
  every decision handed to the sender since it was obtained, oldest first, each with what
  the send did; and \<open>ers\<close>, the issues reported. The monitoring copies of the livetime
  counter (\<open>m_lc_*\<close>), written before and after the loop and read by no code here, are
  left out.
\<close>

record ModuleLevelTrigger =
  m_last_trigger_number :: trigger_number_t
  m_run_number :: run_number_t
  m_links :: "GeoID list"
  m_trigger_decision_connection :: string
  m_inhibit_connection :: string
  m_hsi_passthrough :: bool
  m_trigger_type_shifted :: "32 word"
  m_configured_flag :: bool
  m_paused :: bool
  m_running_flag :: bool
  m_dfo_is_busy :: bool
  m_livetime_counter :: "LivetimeCounter option"
  m_tc_received_count :: metric_counter_type
  m_td_sent_count :: metric_counter_type
  m_td_inhibited_count :: metric_counter_type
  m_td_paused_count :: metric_counter_type
  m_td_total_count :: metric_counter_type
  m_td_queue_timeout_expired_err_count :: metric_counter_type
  td_sender :: "(TriggerDecision \<times> send_result) list"
  ers :: "(severity \<times> Issue) list"

text \<open>The constructor: trigger number and run number 0; nothing configured, no run.\<close>

definition ModuleLevelTrigger_new :: ModuleLevelTrigger where
  "ModuleLevelTrigger_new =
     \<lparr>m_last_trigger_number = 0, m_run_number = 0, m_links = [],
      m_trigger_decision_connection = [], m_inhibit_connection = [],
      m_hsi_passthrough = False, m_trigger_type_shifted = 0,
      m_configured_flag = False, m_paused = False, m_running_flag = False,
      m_dfo_is_busy = False, m_livetime_counter = None,
      m_tc_received_count = 0, m_td_sent_count = 0, m_td_inhibited_count = 0,
      m_td_paused_count = 0, m_td_total_count = 0,
      m_td_queue_timeout_expired_err_count = 0,
      td_sender = [], ers = []\<rparr>"

text \<open>The parsed configuration \<open>moduleleveltrigger::ConfParams\<close>; the fields
  \<open>system\<close>, \<open>region\<close>, \<open>element\<close> of a configured link carry the prefix \<open>link_\<close>.\<close>

record LinkConf =
  link_system :: string
  link_region :: "16 word"
  link_element :: "32 word"

record ConfParams =
  links :: "LinkConf list"
  dfo_connection :: string
  dfo_busy_connection :: string
  hsi_trigger_type_passthrough :: bool

text \<open>\<open>do_configure\<close>. The conversion \<open>GeoID::string_to_system_type\<close> of the data
  formats library is a parameter.\<close>

definition do_configure ::
  "(string \<Rightarrow> 16 word) \<Rightarrow> ModuleLevelTrigger \<Rightarrow> ConfParams \<Rightarrow> ModuleLevelTrigger" where
  "do_configure string_to_system_type s params =
     s\<lparr>m_links :=
         map (\<lambda>link. \<lparr>system_type = string_to_system_type (link_system link),
                       region = link_region link, element = link_element link\<rparr>)
           (links params),
       m_trigger_decision_connection := dfo_connection params,
       m_inhibit_connection := dfo_busy_connection params,
       m_hsi_passthrough := hsi_trigger_type_passthrough params,
       m_configured_flag := True\<rparr>"

text \<open>\<open>do_start\<close>, up to the launch of the thread that runs \<open>send_trigger_decisions\<close>;
  \<open>now\<close> is the clock reading of the new livetime counter.\<close>

definition do_start :: "ModuleLevelTrigger \<Rightarrow> run_number_t \<Rightarrow> int \<Rightarrow> ModuleLevelTrigger" where
  "do_start s run now =
     s\<lparr>m_run_number := run,
       m_paused := True,
       m_running_flag := True,
       m_dfo_is_busy := False,
       m_livetime_counter := Some (LivetimeCounter_new kPaused now),
       ers := ers s @ [(ers_info, TriggerStartOfRun run)]\<rparr>"

text \<open>A command or callback that dereferences \<open>m_livetime_counter\<close> while it is null
  does not return.\<close>

datatype failure = NullLivetimeCounter

definition do_pause :: "ModuleLevelTrigger \<Rightarrow> int \<Rightarrow> failure + ModuleLevelTrigger" where
  "do_pause s now =
     (case m_livetime_counter s of
        None \<Rightarrow> Inl NullLivetimeCounter
      | Some lc \<Rightarrow>
          Inr (s\<lparr>m_paused := True,
                 m_livetime_counter := Some (set_state lc kPaused now),
                 ers := ers s @ [(ers_info, TriggerPaused)]\<rparr>))"

definition do_resume :: "ModuleLevelTrigger \<Rightarrow> int \<Rightarrow> failure + ModuleLevelTrigger" where
  "do_resume s now =
     (case m_livetime_counter s of
        None \<Rightarrow> Inl NullLivetimeCounter
      | Some lc \<Rightarrow>
          Inr (s\<lparr>ers := ers s @ [(ers_info, TriggerActive)],
                 m_livetime_counter := Some (set_state lc kLive now),
                 m_paused := False\<rparr>))"

definition do_scrap :: "ModuleLevelTrigger \<Rightarrow> ModuleLevelTrigger" where
  "do_scrap s = s\<lparr>m_links := [], m_configured_flag := False\<rparr>"

text \<open>\<open>dfo_busy_callback\<close>: the counter is set to \<open>kDead\<close> whatever the busy value of a
  message for the active run.\<close>

definition dfo_busy_callback ::
  "ModuleLevelTrigger \<Rightarrow> TriggerInhibit \<Rightarrow> int \<Rightarrow> failure + ModuleLevelTrigger" where
  "dfo_busy_callback s inhibit now =
     (if inhibit_run_number inhibit = m_run_number s then
        (case m_livetime_counter s of
           None \<Rightarrow> Inl NullLivetimeCounter
         | Some lc \<Rightarrow>
             Inr (s\<lparr>m_dfo_is_busy := busy inhibit,
                    m_livetime_counter := Some (set_state lc kDead now)\<rparr>))
      else Inr s)"

text \<open>
  \<open>create_decision\<close>. It returns the decision and the module, whose member
  \<open>m_trigger_type_shifted\<close> the branch for a candidate that is not a timing candidate
  assigns. \<open>tc.detid & 0xff\<close> is computed in \<open>int\<close> and converted to the 16-bit trigger
  type; \<open>(int)tc.type << 8\<close> likewise.
\<close>

definition create_decision ::
  "ModuleLevelTrigger \<Rightarrow> TriggerCandidate \<Rightarrow> TriggerDecision \<times> ModuleLevelTrigger" where
  "create_decision s tc =
     (let (tt, s') =
            (if m_hsi_passthrough s then
               (case type tc of
                  kTiming \<Rightarrow> (ucast ((ucast (detid tc) :: 32 word) AND 0xff), s)
                | kOther code \<Rightarrow>
                    (ucast (push_bit 8 code :: 32 word),
                     s\<lparr>m_trigger_type_shifted := push_bit 8 code\<rparr>))
             else (1, s))
      in (\<lparr>trigger_number = m_last_trigger_number s + 1,
           run_number = m_run_number s,
           trigger_timestamp = time_candidate tc,
           trigger_type = tt,
           readout_type = kLocalized,
           components =
             map (\<lambda>link. \<lparr>component = link, window_begin = time_start tc,
                           window_end = time_end tc\<rparr>) (m_links s)\<rparr>,
          s'))"

text \<open>The start of \<open>send_trigger_decisions\<close>: the trigger number and the counters are
  reset and the sender is obtained (nothing has been handed to it yet). The count of
  failed sends is not reset.\<close>

definition send_trigger_decisions_reset :: "ModuleLevelTrigger \<Rightarrow> ModuleLevelTrigger" where
  "send_trigger_decisions_reset s =
     s\<lparr>m_last_trigger_number := 0,
       m_tc_received_count := 0,
       m_td_sent_count := 0,
       m_td_inhibited_count := 0,
       m_td_paused_count := 0,
       m_td_total_count := 0,
       td_sender := []\<rparr>"

text \<open>
  The body of the loop for a received candidate \<open>tc\<close> ("We got a TC" to the end of the
  body); \<open>r\<close> is what the sender does if a decision is handed to it. The loads of
  \<open>m_paused\<close> and \<open>m_dfo_is_busy\<close> read the module as it is when the candidate
  arrives.
\<close>

definition handle_candidate ::
  "ModuleLevelTrigger \<Rightarrow> TriggerCandidate \<Rightarrow> send_result \<Rightarrow> ModuleLevelTrigger" where
  "handle_candidate s tc r =
     (let s1 = s\<lparr>m_tc_received_count := m_tc_received_count s + 1\<rparr>;
          s2 =
            (if \<not> m_paused s1 \<and> \<not> m_dfo_is_busy s1 then
               (let (decision, s') = create_decision s1 tc;
                    s'' = s'\<lparr>td_sender := td_sender s' @ [(decision, r)]\<rparr>
                in (case r of
                      SendOk \<Rightarrow>
                        s''\<lparr>m_td_sent_count := m_td_sent_count s'' + 1,
                            m_last_trigger_number := m_last_trigger_number s'' + 1\<rparr>
                    | SendIssue \<Rightarrow>
                        s''\<lparr>ers := ers s'' @ [(ers_error, SendFailure)],
                            m_td_queue_timeout_expired_err_count :=
                              m_td_queue_timeout_expired_err_count s'' + 1\<rparr>))
             else if m_paused s1 then
               s1\<lparr>m_td_paused_count := m_td_paused_count s1 + 1\<rparr>
             else
               s1\<lparr>ers := ers s1 @ [(ers_warning, TriggerInhibited (m_run_number s1))],
                  m_td_inhibited_count := m_td_inhibited_count s1 + 1\<rparr>)
      in s2\<lparr>m_td_total_count := m_td_total_count s2 + 1\<rparr>)"

text \<open>
  What happens during a run, in order: a poll of the candidate source that times out; a
  poll that returns a candidate (with what the sender will do); and, from the other
  threads, the store \<open>m_running_flag.store(false)\<close> of \<open>do_stop\<close>, the commands
  \<open>disable_triggers\<close> and \<open>enable_triggers\<close>, and an inhibit message, each with
  its clock reading. The other threads act between two iterations of the loop.
\<close>

datatype event =
    Timeout
  | Received TriggerCandidate send_result
  | StopRequested
  | Pause int
  | Resume int
  | Inhibit TriggerInhibit int

datatype status = Exited | Polling | Crashed

text \<open>
  The loop \<open>while (true)\<close> of \<open>send_trigger_decisions\<close> over the events of a run.
  \<open>Exited\<close>: the loop reached \<open>break\<close>, and the events after it are not looked at.
  \<open>Polling\<close>: the events are used up and the loop is still polling. \<open>Crashed\<close>:
  another thread dereferenced a null livetime counter.
\<close>

fun send_trigger_decisions_loop ::
  "ModuleLevelTrigger \<Rightarrow> event list \<Rightarrow> status \<times> ModuleLevelTrigger" where
  "send_trigger_decisions_loop s [] = (Polling, s)"
| "send_trigger_decisions_loop s (Timeout # es) =
     (if \<not> m_running_flag s then (Exited, s) else send_trigger_decisions_loop s es)"
| "send_trigger_decisions_loop s (Received tc r # es) =
     send_trigger_decisions_loop (handle_candidate s tc r) es"
| "send_trigger_decisions_loop s (StopRequested # es) =
     send_trigger_decisions_loop (s\<lparr>m_running_flag := False\<rparr>) es"
| "send_trigger_decisions_loop s (Pause now # es) =
     (case do_pause s now of
        Inl _ \<Rightarrow> (Crashed, s)
      | Inr s' \<Rightarrow> send_trigger_decisions_loop s' es)"
| "send_trigger_decisions_loop s (Resume now # es) =
     (case do_resume s now of
        Inl _ \<Rightarrow> (Crashed, s)
      | Inr s' \<Rightarrow> send_trigger_decisions_loop s' es)"
| "send_trigger_decisions_loop s (Inhibit inhibit now # es) =
     (case dfo_busy_callback s inhibit now of
        Inl _ \<Rightarrow> (Crashed, s)
      | Inr s' \<Rightarrow> send_trigger_decisions_loop s' es)"

definition send_trigger_decisions ::
  "ModuleLevelTrigger \<Rightarrow> event list \<Rightarrow> status \<times> ModuleLevelTrigger" where
  "send_trigger_decisions s es =
     send_trigger_decisions_loop (send_trigger_decisions_reset s) es"

text \<open>The decisions whose send succeeded, oldest first, and their trigger numbers.\<close>

definition sent_decisions :: "ModuleLevelTrigger \<Rightarrow> TriggerDecision list" where
  "sent_decisions s = map fst (filter (\<lambda>p. snd p = SendOk) (td_sender s))"

definition sent_trigger_numbers :: "ModuleLevelTrigger \<Rightarrow> trigger_number_t list" where
  "sent_trigger_numbers s = map trigger_number (sent_decisions s)"

subsection \<open>TimingTriggerCandidateMaker\<close>

text \<open>\<open>triggeralgs::TimeStampedData\<close>; the signal type is a 32-bit unsigned integer.\<close>

record TimeStampedData =
  signal_type :: "32 word"
  time_stamp :: timestamp_t
  counter :: "32 word"

type_synonym detid_offsets_map = "32 word \<rightharpoonup> timestamp_t \<times> timestamp_t"

text \<open>One entry of the configuration \<open>timingtriggercandidatemaker::Conf\<close>; its field
  \<open>signal_type\<close> is \<open>conf_signal_type\<close> here.\<close>

record SignalConf =
  conf_signal_type :: "32 word"
  time_before :: timestamp_t
  time_after :: timestamp_t

record Conf =
  s0 :: SignalConf
  s1 :: SignalConf
  s2 :: SignalConf

definition do_conf :: "detid_offsets_map \<Rightarrow> Conf \<Rightarrow> detid_offsets_map" where
  "do_conf m params =
     m(conf_signal_type (s0 params) \<mapsto> (time_before (s0 params), time_after (s0 params)),
       conf_signal_type (s1 params) \<mapsto> (time_before (s1 params), time_after (s1 params)),
       conf_signal_type (s2 params) \<mapsto> (time_before (s2 params), time_after (s2 params)))"

text \<open>\<open>m_detid_offsets_map[key]\<close>, the subscript of the standard map: a key that is
  absent is inserted with the value-initialised pair. The subscript does not throw, so
  the handler around it, which rethrows an \<open>ers::Issue\<close> as \<open>SignalTypeError\<close>, is
  not reached.\<close>

definition subscript ::
  "detid_offsets_map \<Rightarrow> 32 word \<Rightarrow> (timestamp_t \<times> timestamp_t) \<times> detid_offsets_map" where
  "subscript m key =
     (case m key of
        Some v \<Rightarrow> (v, m)
      | None \<Rightarrow> ((0, 0), m(key \<mapsto> (0, 0))))"

definition TimeStampedDataToTriggerCandidate ::
  "detid_offsets_map \<Rightarrow> TimeStampedData \<Rightarrow> TriggerCandidate \<times> detid_offsets_map" where
  "TimeStampedDataToTriggerCandidate m data =
     (let (before, m1) = subscript m (signal_type data);
          (after, m2) = subscript m1 (signal_type data)
      in (\<lparr>time_start = time_stamp data - fst before,
           time_end = time_stamp data + snd after,
           time_candidate = time_stamp data,
           detid = ucast (signal_type data),
           type = kTiming,
           algorithm = 0,
           version = 0,
           ta_list = []\<rparr>,
          m2))"

subsection \<open>BufferManager\<close>

text \<open>
  Modelled from the spec: the header \<open>trigger/TPSet.hpp\<close> is not among the sources.
  The spec's BufferedInterval is "start_time, end_time, payload".
\<close>

record TPSet =
  start_time :: timestamp_t
  end_time :: timestamp_t
  payload :: nat

text \<open>\<open>BufferManager::TPSetCmp\<close>.\<close>

definition TPSetCmp :: "TPSet \<Rightarrow> TPSet \<Rightarrow> bool" where
  "TPSetCmp ltps rtps =
     (let LTPS = start_time ltps; RTPS = start_time rtps in LTPS < RTPS)"

text \<open>
  \<open>std::set<TPSet, TPSetCmp>\<close> as the list of its elements in the order of the
  comparison. \<open>set_insert\<close> is \<open>std::set::insert\<close>: the element goes to its place
  unless an equivalent one (neither is less than the other) is stored, and the flag says
  whether it was inserted.
\<close>

fun set_insert :: "('a \<Rightarrow> 'a \<Rightarrow> bool) \<Rightarrow> 'a \<Rightarrow> 'a list \<Rightarrow> 'a list \<times> bool" where
  "set_insert cmp x [] = ([x], True)"
| "set_insert cmp x (y # ys) =
     (if cmp x y then (x # y # ys, True)
      else if cmp y x then (let (zs, inserted) = set_insert cmp x ys in (y # zs, inserted))
      else (y # ys, False))"

text \<open>
  Modelled from the spec: \<open>BufferManager::add\<close> is declared in \<open>BufferManager.hpp\<close>
  and its body is not among the sources. The spec (section 4.2): "inserts; if resulting
  size exceeds configured capacity, evicts the interval(s) with smallest \<open>start_time\<close>
  until size == capacity. Returns whether the insert succeeded". The capacity is a
  parameter; the subtraction on \<open>nat\<close> is 0 when the buffer is within capacity.
\<close>

definition add :: "nat \<Rightarrow> TPSet list \<Rightarrow> TPSet \<Rightarrow> TPSet list \<times> bool" where
  "add capacity m_tpset_buffer tps =
     (let (buffer, inserted) = set_insert TPSetCmp tps m_tpset_buffer
      in (drop (length buffer - capacity) buffer, inserted))"

text \<open>The buffer after a sequence of calls of \<open>add\<close>, from the empty buffer.\<close>

fun add_all :: "nat \<Rightarrow> TPSet list \<Rightarrow> TPSet list \<Rightarrow> TPSet list" where
  "add_all capacity m_tpset_buffer [] = m_tpset_buffer"
| "add_all capacity m_tpset_buffer (tps # rest) =
     add_all capacity (fst (add capacity m_tpset_buffer tps)) rest"

subsection \<open>A configured module and a candidate, for the examples\<close>

definition example_system_type :: "string \<Rightarrow> 16 word" where
  "example_system_type name = (if name = ''TPC'' then 1 else 0)"

definition example_params :: ConfParams where
  "example_params =
     \<lparr>links = [\<lparr>link_system = ''TPC'', link_region = 0, link_element = 1\<rparr>,
               \<lparr>link_system = ''TPC'', link_region = 0, link_element = 2\<rparr>],
      dfo_connection = ''td_to_dfo'',
      dfo_busy_connection = ''df_busy_signal'',
      hsi_trigger_type_passthrough = False\<rparr>"

text \<open>Configured with two links and no pass-through, then started as run 7 at time 0.\<close>

definition example_module :: ModuleLevelTrigger where
  "example_module =
     do_start (do_configure example_system_type ModuleLevelTrigger_new example_params) 7 0"

definition example_candidate :: TriggerCandidate where
  "example_candidate =
     \<lparr>time_start = 100, time_end = 200, time_candidate = 150, detid = 261,
      type = kTiming, algorithm = 0, version = 0, ta_list = []\<rparr>"

text \<open>
  A run: triggers are enabled; a decision is sent; a send fails; triggers are disabled
  and a candidate arrives; triggers are enabled again, the downstream reports busy and a
  candidate arrives; the downstream reports idle and a decision is sent; the run is
  stopped and the next poll finds the source empty.
\<close>

definition example_events :: "event list" where
  "example_events =
     [Resume 10,
      Received example_candidate SendOk,
      Received example_candidate SendIssue,
      Pause 20,
      Received example_candidate SendOk,
      Resume 30,
      Inhibit \<lparr>busy = True, inhibit_run_number = 7\<rparr> 40,
      Received example_candidate SendOk,
      Inhibit \<lparr>busy = False, inhibit_run_number = 7\<rparr> 50,
      Received example_candidate SendOk,
      StopRequested]"

text \<open>A configuration of the candidate maker whose first signal type needs 17 bits.\<close>

definition example_conf :: Conf where
  "example_conf =
     \<lparr>s0 = \<lparr>conf_signal_type = 65536, time_before = 10, time_after = 20\<rparr>,
      s1 = \<lparr>conf_signal_type = 1, time_before = 10, time_after = 20\<rparr>,
      s2 = \<lparr>conf_signal_type = 261, time_before = 10, time_after = 20\<rparr>\<rparr>"

section \<open>Livetime accounting\<close>

lemma total_set_state:
  "accumulated (set_state lc target now) kLive
     + accumulated (set_state lc target now) kPaused
     + accumulated (set_state lc target now) kDead
     - entered_at (set_state lc target now)
   = accumulated lc kLive + accumulated lc kPaused + accumulated lc kDead
     - entered_at lc"
  by (cases "current_state lc") (simp_all add: set_state_def)

lemma total_transitions:
  "accumulated (transitions lc ts) kLive + accumulated (transitions lc ts) kPaused
     + accumulated (transitions lc ts) kDead - entered_at (transitions lc ts)
   = accumulated lc kLive + accumulated lc kPaused + accumulated lc kDead - entered_at lc"
proof (induction ts arbitrary: lc)
  case Nil
  show ?case by simp
next
  case (Cons t ts)
  obtain target now where t: "t = (target, now)" by (cases t)
  show ?case
    using Cons.IH [of "set_state lc target now"] total_set_state [of lc target now]
    by (simp add: t)
qed

lemma total_get_time:
  "get_time lc kLive now + get_time lc kPaused now + get_time lc kDead now
   = accumulated lc kLive + accumulated lc kPaused + accumulated lc kDead
     + (now - entered_at lc)"
  by (cases "current_state lc") (simp_all add: get_time_def)

text \<open>
  C6. For every sequence of transitions applied to a counter created at time \<open>t0\<close> in
  state \<open>st0\<close>, and every query time \<open>now\<close>, the elapsed times of Live, Paused and
  Dead add up to \<open>now - t0\<close>, the time since creation. A transition adds
  \<open>t - entered_at\<close> to the accumulator of the state it leaves, leaves the other
  accumulators alone, and sets the current state and \<open>entered_at\<close>; a query returns
  the accumulator, plus the open interval for the current state only.
\<close>

theorem livetime_sum_is_time_since_creation:
  "get_time (transitions (LivetimeCounter_new st0 t0) ts) kLive now
     + get_time (transitions (LivetimeCounter_new st0 t0) ts) kPaused now
     + get_time (transitions (LivetimeCounter_new st0 t0) ts) kDead now
   = now - t0
   \<and> accumulated (set_state lc target t) st
       = (if st = current_state lc then accumulated lc st + (t - entered_at lc)
          else accumulated lc st)
   \<and> current_state (set_state lc target t) = target
   \<and> entered_at (set_state lc target t) = t
   \<and> get_time lc st now
       = (if st = current_state lc then accumulated lc st + (now - entered_at lc)
          else accumulated lc st)"
proof -
  let ?lc = "transitions (LivetimeCounter_new st0 t0) ts"
  have "get_time ?lc kLive now + get_time ?lc kPaused now + get_time ?lc kDead now
        = accumulated ?lc kLive + accumulated ?lc kPaused + accumulated ?lc kDead
          - entered_at ?lc + now"
    by (simp add: total_get_time)
  also have "\<dots> = now - t0"
    by (simp add: total_transitions LivetimeCounter_new_def)
  finally have "get_time ?lc kLive now + get_time ?lc kPaused now + get_time ?lc kDead now
        = now - t0" .
  then show ?thesis
    by (simp add: set_state_def get_time_def)
qed

section \<open>Decisions\<close>

subsection \<open>Conversions between the integer types\<close>

lemma mask_255: "(255 :: 'a::len word) = mask 8"
  by (simp add: mask_eq_exp_minus_1)

lemma low_byte_word: "(ucast ((ucast (d :: 16 word) :: 32 word) AND 0xff) :: 16 word) = take_bit 8 d"
  unfolding mask_255 by (rule bit_word_eqI) (auto simp add: bit_simps)

lemma unat_low_byte:
  "unat (ucast ((ucast (d :: 16 word) :: 32 word) AND 0xff) :: 16 word) = unat d mod 256"
  unfolding low_byte_word by (simp only: unsigned_take_bit_eq) (simp add: take_bit_eq_mod)

lemma shifted_word: "(ucast (push_bit 8 (c :: 32 word)) :: 16 word) = push_bit 8 (ucast c)"
  by (rule bit_word_eqI) (auto simp add: bit_simps)

lemma unat_shifted:
  "unat (ucast (push_bit 8 (c :: 32 word)) :: 16 word) = (unat c * 256) mod 65536"
proof -
  have "unat (push_bit 8 (ucast c :: 16 word))
        = take_bit 16 (push_bit 8 (take_bit 16 (unat c)))"
    by (simp add: unsigned_push_bit_eq unsigned_ucast_eq)
  also have "\<dots> = (unat c * 256) mod 65536"
    by (simp add: take_bit_eq_mod push_bit_eq_mult mod_mult_left_eq)
  finally show ?thesis unfolding shifted_word .
qed

subsection \<open>What \<open>create_decision\<close> returns\<close>

lemma fst_create_decision:
  "fst (create_decision s tc) =
     \<lparr>trigger_number = m_last_trigger_number s + 1,
      run_number = m_run_number s,
      trigger_timestamp = time_candidate tc,
      trigger_type =
        (if m_hsi_passthrough s then
           (case type tc of
              kTiming \<Rightarrow> ucast ((ucast (detid tc) :: 32 word) AND 0xff)
            | kOther code \<Rightarrow> ucast (push_bit 8 code :: 32 word))
         else 1),
      readout_type = kLocalized,
      components =
        map (\<lambda>link. \<lparr>component = link, window_begin = time_start tc,
                      window_end = time_end tc\<rparr>) (m_links s)\<rparr>"
  by (simp add: create_decision_def split: Type.split)

lemma snd_create_decision:
  "snd (create_decision s tc) =
     (if m_hsi_passthrough s then
        (case type tc of
           kTiming \<Rightarrow> s
         | kOther code \<Rightarrow> s\<lparr>m_trigger_type_shifted := push_bit 8 code\<rparr>)
      else s)"
  by (simp add: create_decision_def split: Type.split)

lemma unat_trigger_type:
  "unat (trigger_type (fst (create_decision s tc)))
   = (if m_hsi_passthrough s then
        (case type tc of
           kTiming \<Rightarrow> unat (detid tc) mod 256
         | kOther code \<Rightarrow> (unat code * 256) mod 65536)
      else 1)"
  by (simp add: fst_create_decision unat_low_byte unat_shifted split: Type.split)

text \<open>
  C2. The trigger type of the decision, read as a number: with pass-through enabled and a
  timing candidate it is the low 8 bits of the detector id (\<open>detid mod 256\<close>); with
  pass-through enabled and another type it is the type code shifted left by 8 bits, in
  the 16 bits of the trigger type (\<open>code * 256 mod 65536\<close>, which is \<open>code * 256\<close>
  for every code below 256); with pass-through disabled it is the constant 1.
\<close>

theorem create_decision_trigger_type:
  "unat (trigger_type (fst (create_decision s tc)))
   = (if m_hsi_passthrough s then
        (case type tc of
           kTiming \<Rightarrow> unat (detid tc) mod 256
         | kOther code \<Rightarrow> (unat code * 256) mod 65536)
      else 1)
   \<and> (m_hsi_passthrough s \<and> type tc = kOther code \<and> unat code < 256
        \<longrightarrow> unat (trigger_type (fst (create_decision s tc))) = unat code * 256)"
  by (simp add: unat_trigger_type)

theorem create_decision_trigger_type_witness:
  "m_hsi_passthrough (example_module\<lparr>m_hsi_passthrough := True\<rparr>)
   \<and> type (example_candidate\<lparr>type := kOther 2\<rparr>) = kOther 2
   \<and> unat (2 :: 32 word) < 256
   \<and> unat (trigger_type
             (fst (create_decision (example_module\<lparr>m_hsi_passthrough := True\<rparr>)
                    (example_candidate\<lparr>type := kOther 2\<rparr>)))) = 512
   \<and> unat (trigger_type
             (fst (create_decision (example_module\<lparr>m_hsi_passthrough := True\<rparr>)
                    example_candidate))) = 5
   \<and> unat (trigger_type (fst (create_decision example_module example_candidate))) = 1"
  using create_decision_trigger_type
          [of "example_module\<lparr>m_hsi_passthrough := True\<rparr>"
              "example_candidate\<lparr>type := kOther 2\<rparr>" 2]
        create_decision_trigger_type
          [of "example_module\<lparr>m_hsi_passthrough := True\<rparr>" example_candidate 0]
        create_decision_trigger_type [of example_module example_candidate 0]
  by (simp add: example_module_def example_candidate_def do_start_def do_configure_def
      example_params_def)

section \<open>The body of the decision loop\<close>

lemma handle_candidate_admitted:
  "\<not> m_paused s \<Longrightarrow> \<not> m_dfo_is_busy s \<Longrightarrow>
   handle_candidate s tc r =
     (case r of
        SendOk \<Rightarrow>
          (snd (create_decision s tc))
            \<lparr>m_tc_received_count := m_tc_received_count s + 1,
             td_sender := td_sender s @ [(fst (create_decision s tc), r)],
             m_td_sent_count := m_td_sent_count s + 1,
             m_last_trigger_number := m_last_trigger_number s + 1,
             m_td_total_count := m_td_total_count s + 1\<rparr>
      | SendIssue \<Rightarrow>
          (snd (create_decision s tc))
            \<lparr>m_tc_received_count := m_tc_received_count s + 1,
             td_sender := td_sender s @ [(fst (create_decision s tc), r)],
             ers := ers s @ [(ers_error, SendFailure)],
             m_td_queue_timeout_expired_err_count :=
               m_td_queue_timeout_expired_err_count s + 1,
             m_td_total_count := m_td_total_count s + 1\<rparr>)"
  by (simp add: handle_candidate_def create_decision_def Let_def
      split: send_result.split Type.split)

lemma handle_candidate_paused:
  "m_paused s \<Longrightarrow>
   handle_candidate s tc r =
     s\<lparr>m_tc_received_count := m_tc_received_count s + 1,
       m_td_paused_count := m_td_paused_count s + 1,
       m_td_total_count := m_td_total_count s + 1\<rparr>"
  by (simp add: handle_candidate_def Let_def)

lemma handle_candidate_busy:
  "\<not> m_paused s \<Longrightarrow> m_dfo_is_busy s \<Longrightarrow>
   handle_candidate s tc r =
     s\<lparr>m_tc_received_count := m_tc_received_count s + 1,
       ers := ers s @ [(ers_warning, TriggerInhibited (m_run_number s))],
       m_td_inhibited_count := m_td_inhibited_count s + 1,
       m_td_total_count := m_td_total_count s + 1\<rparr>"
  by (simp add: handle_candidate_def Let_def)

lemmas handle_candidate_cases =
  handle_candidate_admitted handle_candidate_paused handle_candidate_busy

lemma td_sender_handle_candidate:
  "td_sender (handle_candidate s tc r)
   = (if \<not> m_paused s \<and> \<not> m_dfo_is_busy s
      then td_sender s @ [(fst (create_decision s tc), r)] else td_sender s)"
  by (cases "m_paused s"; cases "m_dfo_is_busy s")
     (simp_all add: handle_candidate_cases snd_create_decision
        split: send_result.split Type.split)

lemma sent_decisions_handle_candidate:
  "sent_decisions (handle_candidate s tc r)
   = (if \<not> m_paused s \<and> \<not> m_dfo_is_busy s \<and> r = SendOk
      then sent_decisions s @ [fst (create_decision s tc)] else sent_decisions s)"
proof -
  have "sent_decisions (handle_candidate s tc r)
        = map fst (filter (\<lambda>p. snd p = SendOk) (td_sender (handle_candidate s tc r)))"
    by (simp add: sent_decisions_def)
  also have "td_sender (handle_candidate s tc r)
       = (if \<not> m_paused s \<and> \<not> m_dfo_is_busy s
          then td_sender s @ [(fst (create_decision s tc), r)] else td_sender s)"
    by (rule td_sender_handle_candidate)
  finally show ?thesis
    by (simp add: sent_decisions_def)
qed

lemma last_trigger_number_handle_candidate:
  "m_last_trigger_number (handle_candidate s tc r)
   = (if \<not> m_paused s \<and> \<not> m_dfo_is_busy s \<and> r = SendOk
      then m_last_trigger_number s + 1 else m_last_trigger_number s)"
proof (cases "m_paused s")
  case True
  then show ?thesis by (simp add: handle_candidate_paused)
next
  case False
  show ?thesis
  proof (cases "m_dfo_is_busy s")
    case True
    with \<open>\<not> m_paused s\<close> show ?thesis by (simp add: handle_candidate_busy)
  next
    case False
    with \<open>\<not> m_paused s\<close> show ?thesis
      by (simp add: handle_candidate_admitted snd_create_decision
          split: send_result.split Type.split)
  qed
qed

text \<open>
  C5. For every candidate the loop receives, whatever the send does: the count of
  candidates received and the count of decisions considered each grow by 1. If the
  module is paused, the count of paused decisions grows by 1; if it is busy and not
  paused, the count of inhibited decisions grows by 1 and one warning,
  \<open>TriggerInhibited\<close> for the run, is reported; in both cases nothing is handed to
  the sender. Otherwise neither count moves, no warning is reported, and exactly one
  decision, the one \<open>create_decision\<close> builds, is handed to the sender. The flags are
  those of the module when the candidate arrives.
\<close>

theorem handle_candidate_counts:
  "m_tc_received_count (handle_candidate s tc r) = m_tc_received_count s + 1
   \<and> m_td_total_count (handle_candidate s tc r) = m_td_total_count s + 1
   \<and> m_td_paused_count (handle_candidate s tc r)
       = (if m_paused s then m_td_paused_count s + 1 else m_td_paused_count s)
   \<and> m_td_inhibited_count (handle_candidate s tc r)
       = (if \<not> m_paused s \<and> m_dfo_is_busy s then m_td_inhibited_count s + 1
          else m_td_inhibited_count s)
   \<and> td_sender (handle_candidate s tc r)
       = (if \<not> m_paused s \<and> \<not> m_dfo_is_busy s
          then td_sender s @ [(fst (create_decision s tc), r)] else td_sender s)
   \<and> filter (\<lambda>e. fst e = ers_warning) (ers (handle_candidate s tc r))
       = (if \<not> m_paused s \<and> m_dfo_is_busy s
          then filter (\<lambda>e. fst e = ers_warning) (ers s)
                 @ [(ers_warning, TriggerInhibited (m_run_number s))]
          else filter (\<lambda>e. fst e = ers_warning) (ers s))"
proof (cases "m_paused s")
  case True
  then show ?thesis by (simp add: handle_candidate_paused)
next
  case False
  show ?thesis
  proof (cases "m_dfo_is_busy s")
    case True
    with \<open>\<not> m_paused s\<close> show ?thesis by (simp add: handle_candidate_busy)
  next
    case False
    with \<open>\<not> m_paused s\<close> show ?thesis
      by (simp add: handle_candidate_admitted snd_create_decision
          split: send_result.split Type.split)
  qed
qed

text \<open>
  C4. When the module is neither paused nor busy and the send of the decision fails: the
  trigger number and the count of sent decisions stay, the count of failed sends grows by
  1, the sender was handed the decision once and no more (no retry), the decision is
  not among the sent ones, and the loop goes on with the next event: after the failed
  send alone it is still polling.
\<close>

theorem failed_send_is_dropped:
  assumes "\<not> m_paused s" and "\<not> m_dfo_is_busy s"
  shows "m_last_trigger_number (handle_candidate s tc SendIssue) = m_last_trigger_number s
   \<and> m_td_sent_count (handle_candidate s tc SendIssue) = m_td_sent_count s
   \<and> m_td_queue_timeout_expired_err_count (handle_candidate s tc SendIssue)
       = m_td_queue_timeout_expired_err_count s + 1
   \<and> td_sender (handle_candidate s tc SendIssue)
       = td_sender s @ [(fst (create_decision s tc), SendIssue)]
   \<and> sent_decisions (handle_candidate s tc SendIssue) = sent_decisions s
   \<and> m_running_flag (handle_candidate s tc SendIssue) = m_running_flag s
   \<and> send_trigger_decisions_loop s (Received tc SendIssue # es)
       = send_trigger_decisions_loop (handle_candidate s tc SendIssue) es
   \<and> send_trigger_decisions_loop s [Received tc SendIssue]
       = (Polling, handle_candidate s tc SendIssue)"
  using assms
  by (simp add: handle_candidate_admitted snd_create_decision sent_decisions_def
      split: Type.split)

text \<open>
  C9. The decision built from a candidate has the candidate's \<open>time_candidate\<close> as its
  trigger timestamp, and its requests are one per link of \<open>m_links\<close>, in that
  order, each with the window from the candidate's \<open>time_start\<close> to its
  \<open>time_end\<close>; \<open>m_links\<close> holds the configured links in the order of the
  configuration; and this decision is the one handed to the sender for a candidate that
  arrives while the module is neither paused nor busy.
\<close>

theorem create_decision_timestamp_and_requests:
  "trigger_timestamp (fst (create_decision s tc)) = time_candidate tc
   \<and> map component (components (fst (create_decision s tc))) = m_links s
   \<and> map window_begin (components (fst (create_decision s tc)))
       = replicate (length (m_links s)) (time_start tc)
   \<and> map window_end (components (fst (create_decision s tc)))
       = replicate (length (m_links s)) (time_end tc)
   \<and> map region (m_links (do_configure string_to_system_type s params))
       = map link_region (links params)
   \<and> map element (m_links (do_configure string_to_system_type s params))
       = map link_element (links params)
   \<and> map system_type (m_links (do_configure string_to_system_type s params))
       = map (\<lambda>link. string_to_system_type (link_system link)) (links params)
   \<and> td_sender (handle_candidate s tc r)
       = (if \<not> m_paused s \<and> \<not> m_dfo_is_busy s
          then td_sender s @ [(fst (create_decision s tc), r)] else td_sender s)"
  by (simp add: td_sender_handle_candidate fst_create_decision do_configure_def comp_def
      map_replicate_const)

section \<open>The inhibit callback\<close>

text \<open>
  C3. While the livetime counter exists: an inhibit message for another run leaves the
  module as it is; a message for the active run sets \<open>m_dfo_is_busy\<close> to its busy
  value and puts the livetime counter in state \<open>kDead\<close>. So a busy message leads to
  \<open>kDead\<close>, and an idle message does not lead to \<open>kLive\<close> (it leads to
  \<open>kDead\<close> as well).
\<close>

theorem dfo_busy_callback_contract:
  assumes "m_livetime_counter s = Some lc"
  shows "(inhibit_run_number inhibit \<noteq> m_run_number s
           \<longrightarrow> dfo_busy_callback s inhibit now = Inr s)
   \<and> (inhibit_run_number inhibit = m_run_number s
         \<longrightarrow> (\<exists>s' lc'. dfo_busy_callback s inhibit now = Inr s'
                \<and> m_dfo_is_busy s' = busy inhibit
                \<and> m_livetime_counter s' = Some lc'
                \<and> current_state lc' = kDead
                \<and> (busy inhibit \<longrightarrow> current_state lc' = kDead)
                \<and> (\<not> busy inhibit \<longrightarrow> current_state lc' \<noteq> kLive)))"
  using assms by (simp add: dfo_busy_callback_def set_state_def)

section \<open>The decision loop\<close>

subsection \<open>The example run\<close>

lemmas example_simps =
  example_module_def example_candidate_def example_params_def example_system_type_def
  ModuleLevelTrigger_new_def do_configure_def do_start_def do_pause_def do_resume_def
  dfo_busy_callback_def LivetimeCounter_new_def set_state_def
  send_trigger_decisions_def send_trigger_decisions_reset_def handle_candidate_def
  create_decision_def sent_decisions_def sent_trigger_numbers_def

lemma example_run:
  "fst (send_trigger_decisions example_module example_events) = Polling"
  "\<not> m_running_flag (snd (send_trigger_decisions example_module example_events))"
  "map (\<lambda>p. (unat (trigger_number (fst p)), snd p))
     (td_sender (snd (send_trigger_decisions example_module example_events)))
   = [(1, SendOk), (2, SendIssue), (2, SendOk)]"
  by (simp_all add: example_simps example_events_def)

lemma example_sent:
  "map unat (sent_trigger_numbers (snd (send_trigger_decisions example_module example_events)))
   = [1, 2]"
  by (simp add: example_simps example_events_def)

theorem dfo_busy_callback_contract_witness:
  "m_livetime_counter example_module = Some (LivetimeCounter_new kPaused 0)
   \<and> inhibit_run_number \<lparr>busy = True, inhibit_run_number = 8\<rparr> \<noteq> m_run_number example_module
   \<and> dfo_busy_callback example_module \<lparr>busy = True, inhibit_run_number = 8\<rparr> 5
       = Inr example_module
   \<and> inhibit_run_number \<lparr>busy = False, inhibit_run_number = 7\<rparr> = m_run_number example_module
   \<and> (\<exists>s' lc'. dfo_busy_callback example_module \<lparr>busy = False, inhibit_run_number = 7\<rparr> 5
                  = Inr s'
         \<and> m_dfo_is_busy s' = False
         \<and> m_livetime_counter s' = Some lc'
         \<and> current_state lc' = kDead
         \<and> current_state lc' \<noteq> kLive)
   \<and> (\<exists>s' lc'. dfo_busy_callback example_module \<lparr>busy = True, inhibit_run_number = 7\<rparr> 5
                  = Inr s'
         \<and> m_dfo_is_busy s' = True
         \<and> m_livetime_counter s' = Some lc'
         \<and> current_state lc' = kDead)"
proof -
  have lc: "m_livetime_counter example_module = Some (LivetimeCounter_new kPaused 0)"
    by (simp add: example_module_def do_start_def)
  have run: "m_run_number example_module = 7"
    by (simp add: example_module_def do_start_def)
  show ?thesis
    using dfo_busy_callback_contract
            [OF lc, of "\<lparr>busy = True, inhibit_run_number = 8\<rparr>" 5]
          dfo_busy_callback_contract
            [OF lc, of "\<lparr>busy = False, inhibit_run_number = 7\<rparr>" 5]
          dfo_busy_callback_contract
            [OF lc, of "\<lparr>busy = True, inhibit_run_number = 7\<rparr>" 5]
    by (simp add: lc run)
qed

theorem failed_send_is_dropped_witness:
  "\<not> m_paused (example_module\<lparr>m_paused := False\<rparr>)
   \<and> \<not> m_dfo_is_busy (example_module\<lparr>m_paused := False\<rparr>)
   \<and> m_last_trigger_number
       (handle_candidate (example_module\<lparr>m_paused := False\<rparr>) example_candidate SendIssue) = 0
   \<and> m_td_sent_count
       (handle_candidate (example_module\<lparr>m_paused := False\<rparr>) example_candidate SendIssue) = 0
   \<and> m_td_queue_timeout_expired_err_count
       (handle_candidate (example_module\<lparr>m_paused := False\<rparr>) example_candidate SendIssue) = 1
   \<and> map snd (td_sender
       (handle_candidate (example_module\<lparr>m_paused := False\<rparr>) example_candidate SendIssue))
       = [SendIssue]
   \<and> sent_decisions
       (handle_candidate (example_module\<lparr>m_paused := False\<rparr>) example_candidate SendIssue) = []
   \<and> fst (send_trigger_decisions_loop (example_module\<lparr>m_paused := False\<rparr>)
            [Received example_candidate SendIssue]) = Polling
   \<and> map (\<lambda>p. (unat (trigger_number (fst p)), snd p))
        (td_sender (snd (send_trigger_decisions_loop (example_module\<lparr>m_paused := False\<rparr>)
            [Received example_candidate SendIssue, Received example_candidate SendOk])))
       = [(1, SendIssue), (1, SendOk)]"
proof -
  have a: "\<not> m_paused (example_module\<lparr>m_paused := False\<rparr>)"
    and b: "\<not> m_dfo_is_busy (example_module\<lparr>m_paused := False\<rparr>)"
    by (simp_all add: example_module_def do_start_def)
  have c: "m_last_trigger_number example_module = 0" "m_td_sent_count example_module = 0"
    "m_td_queue_timeout_expired_err_count example_module = 0"
    "td_sender example_module = []" "sent_decisions example_module = []"
    by (simp_all add: example_module_def do_start_def do_configure_def
        ModuleLevelTrigger_new_def sent_decisions_def)
  have d: "map (\<lambda>p. (unat (trigger_number (fst p)), snd p))
        (td_sender (snd (send_trigger_decisions_loop
            (handle_candidate (example_module\<lparr>m_paused := False\<rparr>) example_candidate SendIssue)
            [Received example_candidate SendOk])))
       = [(1, SendIssue), (1, SendOk)]"
    by (simp add: example_simps)
  show ?thesis
    using failed_send_is_dropped
            [OF a b, of example_candidate "[Received example_candidate SendOk]"] a b c d
    by (simp add: sent_decisions_def)
qed

subsection \<open>Trigger numbers\<close>

lemma do_pause_keeps:
  "do_pause s now = Inr s' \<Longrightarrow>
   td_sender s' = td_sender s \<and> m_last_trigger_number s' = m_last_trigger_number s"
  by (auto simp add: do_pause_def split: option.splits)

lemma do_resume_keeps:
  "do_resume s now = Inr s' \<Longrightarrow>
   td_sender s' = td_sender s \<and> m_last_trigger_number s' = m_last_trigger_number s"
  by (auto simp add: do_resume_def split: option.splits)

lemma dfo_busy_callback_keeps:
  "dfo_busy_callback s inhibit now = Inr s' \<Longrightarrow>
   td_sender s' = td_sender s \<and> m_last_trigger_number s' = m_last_trigger_number s"
  by (auto simp add: dfo_busy_callback_def split: option.splits if_splits)

lemma numbered_handle_candidate:
  assumes "sent_trigger_numbers s = map word_of_nat [1..<Suc (length (sent_decisions s))]"
    and "m_last_trigger_number s = word_of_nat (length (sent_decisions s))"
  shows "sent_trigger_numbers (handle_candidate s tc r)
         = map word_of_nat [1..<Suc (length (sent_decisions (handle_candidate s tc r)))]
       \<and> m_last_trigger_number (handle_candidate s tc r)
         = word_of_nat (length (sent_decisions (handle_candidate s tc r)))"
  using assms
  by (simp add: sent_trigger_numbers_def sent_decisions_handle_candidate
      last_trigger_number_handle_candidate fst_create_decision)

lemma numbered_loop:
  assumes "sent_trigger_numbers s = map word_of_nat [1..<Suc (length (sent_decisions s))]"
    and "m_last_trigger_number s = word_of_nat (length (sent_decisions s))"
  shows "sent_trigger_numbers (snd (send_trigger_decisions_loop s es))
         = map word_of_nat
             [1..<Suc (length (sent_decisions (snd (send_trigger_decisions_loop s es))))]
       \<and> m_last_trigger_number (snd (send_trigger_decisions_loop s es))
         = word_of_nat (length (sent_decisions (snd (send_trigger_decisions_loop s es))))"
  using assms
proof (induction s es rule: send_trigger_decisions_loop.induct)
  case (1 s)
  then show ?case by simp
next
  case (2 s es)
  then show ?case by simp
next
  case (3 s tc r es)
  then show ?case
    using numbered_handle_candidate [of s tc r] by simp
next
  case (4 s es)
  then show ?case
    by (simp add: sent_trigger_numbers_def sent_decisions_def)
next
  case (5 s now es)
  show ?case
  proof (cases "do_pause s now")
    case (Inl e)
    with 5 show ?thesis by simp
  next
    case (Inr s')
    with 5 do_pause_keeps [OF Inr] show ?thesis
      by (simp add: sent_trigger_numbers_def sent_decisions_def)
  qed
next
  case (6 s now es)
  show ?case
  proof (cases "do_resume s now")
    case (Inl e)
    with 6 show ?thesis by simp
  next
    case (Inr s')
    with 6 do_resume_keeps [OF Inr] show ?thesis
      by (simp add: sent_trigger_numbers_def sent_decisions_def)
  qed
next
  case (7 s inhibit now es)
  show ?case
  proof (cases "dfo_busy_callback s inhibit now")
    case (Inl e)
    with 7 show ?thesis by simp
  next
    case (Inr s')
    with 7 dfo_busy_callback_keeps [OF Inr] show ?thesis
      by (simp add: sent_trigger_numbers_def sent_decisions_def)
  qed
qed

lemma unat_word_of_nat_upt:
  "n < 2 ^ 64 \<Longrightarrow> map unat (map word_of_nat [1..<Suc n] :: 64 word list) = [1..<Suc n]"
proof -
  assume n: "n < 2 ^ 64"
  have "map (\<lambda>k. unat (word_of_nat k :: 64 word)) [1..<Suc n] = map (\<lambda>k. k) [1..<Suc n]"
  proof (rule map_cong [OF refl])
    fix k assume "k \<in> set [1..<Suc n]"
    then have "k \<le> n" by (simp del: upt_Suc)
    then have "k < 2 ^ 64" using n by (rule le_less_trans)
    then show "unat (word_of_nat k :: 64 word) = k"
      by (simp add: unat_of_nat take_bit_nat_eq_self)
  qed
  then show ?thesis by (simp add: comp_def)
qed

text \<open>
  C1. The trigger number is 0 when \<open>send_trigger_decisions\<close> starts; a decision
  carries the last trigger number plus 1; the body of the loop adds 1 to the last trigger
  number when the send succeeds and leaves it otherwise. Hence, for every sequence of
  events of a run (candidates, failed sends, pause, resume, inhibit messages), the
  trigger numbers of the decisions sent are 1, 2, ..., n in this order, as 64-bit
  numbers, and the last trigger number is n. While fewer than \<open>2 ^ 64\<close> decisions
  were sent these are the numbers 1 to n themselves: strictly increasing, no duplicate.
\<close>

theorem trigger_numbers_contiguous:
  "m_last_trigger_number (send_trigger_decisions_reset s) = 0
   \<and> trigger_number (fst (create_decision s tc)) = m_last_trigger_number s + 1
   \<and> m_last_trigger_number (handle_candidate s tc r)
       = (if \<not> m_paused s \<and> \<not> m_dfo_is_busy s \<and> r = SendOk
          then m_last_trigger_number s + 1 else m_last_trigger_number s)
   \<and> sent_trigger_numbers (snd (send_trigger_decisions s es))
       = map word_of_nat
           [1..<Suc (length (sent_decisions (snd (send_trigger_decisions s es))))]
   \<and> m_last_trigger_number (snd (send_trigger_decisions s es))
       = word_of_nat (length (sent_decisions (snd (send_trigger_decisions s es))))
   \<and> (length (sent_decisions (snd (send_trigger_decisions s es))) < 2 ^ 64
        \<longrightarrow> map unat (sent_trigger_numbers (snd (send_trigger_decisions s es)))
              = [1..<Suc (length (sent_decisions (snd (send_trigger_decisions s es))))]
            \<and> distinct (sent_trigger_numbers (snd (send_trigger_decisions s es)))
            \<and> sorted_wrt (<) (sent_trigger_numbers (snd (send_trigger_decisions s es))))"
proof -
  let ?s = "snd (send_trigger_decisions s es)"
  let ?n = "length (sent_decisions ?s)"
  have start: "sent_trigger_numbers (send_trigger_decisions_reset s)
          = map word_of_nat
              [1..<Suc (length (sent_decisions (send_trigger_decisions_reset s)))]"
       "m_last_trigger_number (send_trigger_decisions_reset s)
          = word_of_nat (length (sent_decisions (send_trigger_decisions_reset s)))"
    by (simp_all add: send_trigger_decisions_reset_def sent_trigger_numbers_def
        sent_decisions_def)
  have run: "sent_trigger_numbers ?s = map word_of_nat [1..<Suc ?n]
             \<and> m_last_trigger_number ?s = word_of_nat ?n"
    unfolding send_trigger_decisions_def by (rule numbered_loop [OF start])
  have bounded: "map unat (sent_trigger_numbers ?s) = [1..<Suc ?n]
                 \<and> distinct (sent_trigger_numbers ?s)
                 \<and> sorted_wrt (<) (sent_trigger_numbers ?s)" if n: "?n < 2 ^ 64"
  proof -
    have u: "map unat (sent_trigger_numbers ?s) = [1..<Suc ?n]"
      using run unat_word_of_nat_upt [OF n] by simp
    have "distinct (map unat (sent_trigger_numbers ?s))"
      unfolding u by simp
    then have d: "distinct (sent_trigger_numbers ?s)"
      by (simp add: distinct_map)
    have "sorted_wrt (<) (map unat (sent_trigger_numbers ?s))"
      unfolding u by (simp add: sorted_wrt_upt del: upt_Suc)
    then have "sorted_wrt (\<lambda>a b. unat a < unat b) (sent_trigger_numbers ?s)"
      by (simp add: sorted_wrt_map)
    moreover have "(\<lambda>a b. unat a < unat b) = ((<) :: 64 word \<Rightarrow> 64 word \<Rightarrow> bool)"
      by (intro ext) (simp add: word_less_nat_alt)
    ultimately have "sorted_wrt (<) (sent_trigger_numbers ?s)"
      by simp
    with u d show ?thesis by simp
  qed
  show ?thesis
    using run bounded
    by (simp add: send_trigger_decisions_reset_def fst_create_decision
        last_trigger_number_handle_candidate)
qed

theorem trigger_numbers_contiguous_witness:
  "length (sent_decisions (snd (send_trigger_decisions example_module example_events)))
     < 2 ^ 64
   \<and> map unat
       (sent_trigger_numbers (snd (send_trigger_decisions example_module example_events)))
     = [1, 2]
   \<and> distinct
       (sent_trigger_numbers (snd (send_trigger_decisions example_module example_events)))
   \<and> sorted_wrt (<)
       (sent_trigger_numbers (snd (send_trigger_decisions example_module example_events)))"
proof -
  let ?s = "snd (send_trigger_decisions example_module example_events)"
  have "length (map unat (sent_trigger_numbers ?s)) = 2"
    unfolding example_sent by simp
  then have n: "length (sent_decisions ?s) = 2"
    by (simp add: sent_trigger_numbers_def)
  then have bound: "length (sent_decisions ?s) < 2 ^ 64"
    by simp
  from trigger_numbers_contiguous [where s = example_module and es = example_events] bound
  have "distinct (sent_trigger_numbers ?s) \<and> sorted_wrt (<) (sent_trigger_numbers ?s)"
    by blast
  with bound example_sent show ?thesis by simp
qed

subsection \<open>Leaving the loop\<close>

lemma loop_append:
  "send_trigger_decisions_loop s (pre @ es)
   = (if fst (send_trigger_decisions_loop s pre) = Polling
      then send_trigger_decisions_loop (snd (send_trigger_decisions_loop s pre)) es
      else send_trigger_decisions_loop s pre)"
  by (induction s pre rule: send_trigger_decisions_loop.induct)
     (simp_all split: sum.split)

lemma exited_decomposition:
  "fst (send_trigger_decisions_loop s es) = Exited \<Longrightarrow>
   \<exists>pre post. es = pre @ Timeout # post
     \<and> fst (send_trigger_decisions_loop s pre) = Polling
     \<and> \<not> m_running_flag (snd (send_trigger_decisions_loop s pre))"
proof (induction s es rule: send_trigger_decisions_loop.induct)
  case (1 s)
  then show ?case by simp
next
  case (2 s es)
  show ?case
  proof (cases "m_running_flag s")
    case False
    have "Timeout # es = [] @ Timeout # es
          \<and> fst (send_trigger_decisions_loop s []) = Polling
          \<and> \<not> m_running_flag (snd (send_trigger_decisions_loop s []))"
      using False by simp
    then show ?thesis by blast
  next
    case True
    with 2 obtain pre post where
      "es = pre @ Timeout # post"
      "fst (send_trigger_decisions_loop s pre) = Polling"
      "\<not> m_running_flag (snd (send_trigger_decisions_loop s pre))"
      by auto
    with True have "Timeout # es = (Timeout # pre) @ Timeout # post
          \<and> fst (send_trigger_decisions_loop s (Timeout # pre)) = Polling
          \<and> \<not> m_running_flag (snd (send_trigger_decisions_loop s (Timeout # pre)))"
      by simp
    then show ?thesis by blast
  qed
next
  case (3 s tc r es)
  then obtain pre post where
    "es = pre @ Timeout # post"
    "fst (send_trigger_decisions_loop (handle_candidate s tc r) pre) = Polling"
    "\<not> m_running_flag (snd (send_trigger_decisions_loop (handle_candidate s tc r) pre))"
    by auto
  then have "Received tc r # es = (Received tc r # pre) @ Timeout # post
        \<and> fst (send_trigger_decisions_loop s (Received tc r # pre)) = Polling
        \<and> \<not> m_running_flag (snd (send_trigger_decisions_loop s (Received tc r # pre)))"
    by simp
  then show ?case by blast
next
  case (4 s es)
  then obtain pre post where
    "es = pre @ Timeout # post"
    "fst (send_trigger_decisions_loop (s\<lparr>m_running_flag := False\<rparr>) pre) = Polling"
    "\<not> m_running_flag (snd (send_trigger_decisions_loop (s\<lparr>m_running_flag := False\<rparr>) pre))"
    by auto
  then have "StopRequested # es = (StopRequested # pre) @ Timeout # post
        \<and> fst (send_trigger_decisions_loop s (StopRequested # pre)) = Polling
        \<and> \<not> m_running_flag (snd (send_trigger_decisions_loop s (StopRequested # pre)))"
    by simp
  then show ?case by blast
next
  case (5 s now es)
  show ?case
  proof (cases "do_pause s now")
    case (Inl e)
    with 5 show ?thesis by simp
  next
    case (Inr s')
    with 5 obtain pre post where
      "es = pre @ Timeout # post"
      "fst (send_trigger_decisions_loop s' pre) = Polling"
      "\<not> m_running_flag (snd (send_trigger_decisions_loop s' pre))"
      by auto
    with Inr have "Pause now # es = (Pause now # pre) @ Timeout # post
        \<and> fst (send_trigger_decisions_loop s (Pause now # pre)) = Polling
        \<and> \<not> m_running_flag (snd (send_trigger_decisions_loop s (Pause now # pre)))"
      by simp
    then show ?thesis by blast
  qed
next
  case (6 s now es)
  show ?case
  proof (cases "do_resume s now")
    case (Inl e)
    with 6 show ?thesis by simp
  next
    case (Inr s')
    with 6 obtain pre post where
      "es = pre @ Timeout # post"
      "fst (send_trigger_decisions_loop s' pre) = Polling"
      "\<not> m_running_flag (snd (send_trigger_decisions_loop s' pre))"
      by auto
    with Inr have "Resume now # es = (Resume now # pre) @ Timeout # post
        \<and> fst (send_trigger_decisions_loop s (Resume now # pre)) = Polling
        \<and> \<not> m_running_flag (snd (send_trigger_decisions_loop s (Resume now # pre)))"
      by simp
    then show ?thesis by blast
  qed
next
  case (7 s inhibit now es)
  show ?case
  proof (cases "dfo_busy_callback s inhibit now")
    case (Inl e)
    with 7 show ?thesis by simp
  next
    case (Inr s')
    with 7 obtain pre post where
      "es = pre @ Timeout # post"
      "fst (send_trigger_decisions_loop s' pre) = Polling"
      "\<not> m_running_flag (snd (send_trigger_decisions_loop s' pre))"
      by auto
    with Inr have "Inhibit inhibit now # es = (Inhibit inhibit now # pre) @ Timeout # post
        \<and> fst (send_trigger_decisions_loop s (Inhibit inhibit now # pre)) = Polling
        \<and> \<not> m_running_flag
              (snd (send_trigger_decisions_loop s (Inhibit inhibit now # pre)))"
      by simp
    then show ?thesis by blast
  qed
qed

text \<open>
  C7. A poll that times out ends the loop if the running flag is cleared and is followed
  by the next poll otherwise; a candidate received is handled whatever the flag. The
  loop has left exactly when some poll timed out with the running flag cleared, the loop
  polling until then; and the module is then as it was at that poll, so nothing more is
  handed to the sender whatever events follow.
\<close>

theorem loop_exits_on_empty_poll_after_stop:
  "send_trigger_decisions_loop s (Timeout # es)
     = (if m_running_flag s then send_trigger_decisions_loop s es else (Exited, s))
   \<and> send_trigger_decisions_loop s (Received tc r # es)
     = send_trigger_decisions_loop (handle_candidate s tc r) es
   \<and> (fst (send_trigger_decisions_loop s es) = Exited
       \<longleftrightarrow> (\<exists>pre post. es = pre @ Timeout # post
              \<and> fst (send_trigger_decisions_loop s pre) = Polling
              \<and> \<not> m_running_flag (snd (send_trigger_decisions_loop s pre))))
   \<and> (fst (send_trigger_decisions_loop s pre) = Polling
        \<and> \<not> m_running_flag (snd (send_trigger_decisions_loop s pre))
       \<longrightarrow> send_trigger_decisions_loop s (pre @ Timeout # post)
            = (Exited, snd (send_trigger_decisions_loop s pre)))"
proof -
  have "fst (send_trigger_decisions_loop s es) = Exited"
    if "es = pre @ Timeout # post"
      "fst (send_trigger_decisions_loop s pre) = Polling"
      "\<not> m_running_flag (snd (send_trigger_decisions_loop s pre))" for pre post
    using that by (simp add: loop_append)
  then have "fst (send_trigger_decisions_loop s es) = Exited
       \<longleftrightarrow> (\<exists>pre post. es = pre @ Timeout # post
              \<and> fst (send_trigger_decisions_loop s pre) = Polling
              \<and> \<not> m_running_flag (snd (send_trigger_decisions_loop s pre)))"
    using exited_decomposition [of s es] by blast
  then show ?thesis
    by (simp add: loop_append)
qed

theorem loop_exits_on_empty_poll_after_stop_witness:
  "fst (send_trigger_decisions_loop (send_trigger_decisions_reset example_module)
          example_events) = Polling
   \<and> \<not> m_running_flag
         (snd (send_trigger_decisions_loop (send_trigger_decisions_reset example_module)
                 example_events))
   \<and> fst (send_trigger_decisions_loop (send_trigger_decisions_reset example_module)
            (example_events @ Timeout # [Received example_candidate SendOk])) = Exited
   \<and> td_sender
        (snd (send_trigger_decisions_loop (send_trigger_decisions_reset example_module)
                (example_events @ Timeout # [Received example_candidate SendOk])))
     = td_sender
        (snd (send_trigger_decisions_loop (send_trigger_decisions_reset example_module)
                example_events))"
proof -
  have a: "fst (send_trigger_decisions_loop (send_trigger_decisions_reset example_module)
          example_events) = Polling"
    and b: "\<not> m_running_flag
         (snd (send_trigger_decisions_loop (send_trigger_decisions_reset example_module)
                 example_events))"
    using example_run(1,2) by (simp_all add: send_trigger_decisions_def)
  show ?thesis
    using loop_exits_on_empty_poll_after_stop
            [where s = "send_trigger_decisions_reset example_module"
               and pre = example_events
               and post = "[Received example_candidate SendOk]"] a b
    by simp
qed

section \<open>The buffer of the BufferManager\<close>

lemma set_insert_subset:
  "set (fst (set_insert cmp x xs)) \<subseteq> insert x (set xs)"
  by (induction xs) (auto split: prod.splits)

lemma set_insert_rejected:
  "\<not> snd (set_insert cmp x xs) \<Longrightarrow> fst (set_insert cmp x xs) = xs"
  by (induction xs) (auto split: prod.splits if_splits)

lemma TPSetCmp_iff: "TPSetCmp a b \<longleftrightarrow> start_time a < start_time b"
  by (simp add: TPSetCmp_def)

lemma sorted_set_insert:
  "sorted_wrt TPSetCmp xs \<Longrightarrow> sorted_wrt TPSetCmp (fst (set_insert TPSetCmp x xs))"
proof (induction xs)
  case Nil
  show ?case by simp
next
  case (Cons y ys)
  show ?case
  proof (cases "TPSetCmp x y")
    case True
    have "TPSetCmp x z" if "z \<in> set ys" for z
      using Cons.prems True that by (auto simp add: TPSetCmp_iff)
    with True Cons.prems show ?thesis by auto
  next
    case False
    show ?thesis
    proof (cases "TPSetCmp y x")
      case True
      have "TPSetCmp y z" if "z \<in> set (fst (set_insert TPSetCmp x ys))" for z
        using set_insert_subset [of TPSetCmp x ys] that True Cons.prems by auto
      with \<open>\<not> TPSetCmp x y\<close> True Cons show ?thesis
        by (auto split: prod.splits)
    next
      case False
      with \<open>\<not> TPSetCmp x y\<close> Cons.prems show ?thesis by simp
    qed
  qed
qed

lemma set_insert_flag:
  "sorted_wrt TPSetCmp xs \<Longrightarrow>
   snd (set_insert TPSetCmp x xs) = (start_time x \<notin> start_time ` set xs)"
proof (induction xs)
  case Nil
  show ?case by simp
next
  case (Cons y ys)
  show ?case
  proof (cases "TPSetCmp x y")
    case True
    have "start_time x < start_time z" if "z \<in> set (y # ys)" for z
      using Cons.prems True that by (auto simp add: TPSetCmp_iff)
    then have "start_time x \<notin> start_time ` set (y # ys)" by fastforce
    with True show ?thesis by simp
  next
    case False
    show ?thesis
    proof (cases "TPSetCmp y x")
      case True
      then have "start_time y \<noteq> start_time x" by (simp add: TPSetCmp_iff)
      with \<open>\<not> TPSetCmp x y\<close> True Cons show ?thesis
        by (auto split: prod.splits)
    next
      case False
      with \<open>\<not> TPSetCmp x y\<close> have "start_time x = start_time y"
        by (simp add: TPSetCmp_iff)
      with \<open>\<not> TPSetCmp x y\<close> False show ?thesis by simp
    qed
  qed
qed

lemma sorted_distinct_start_time:
  "sorted_wrt TPSetCmp xs \<Longrightarrow> distinct (map start_time xs)"
  by (induction xs) (auto simp add: TPSetCmp_iff)

lemma add_eq:
  "add capacity xs tps
   = (drop (length (fst (set_insert TPSetCmp tps xs)) - capacity)
        (fst (set_insert TPSetCmp tps xs)),
      snd (set_insert TPSetCmp tps xs))"
  by (simp add: add_def case_prod_unfold Let_def)

lemma sorted_add:
  "sorted_wrt TPSetCmp xs \<Longrightarrow> sorted_wrt TPSetCmp (fst (add capacity xs tps))"
  using sorted_set_insert [of xs tps]
  by (simp add: add_eq sorted_wrt_drop)

lemma length_add: "length (fst (add capacity xs tps)) \<le> capacity"
  by (simp add: add_eq)

lemma add_all_invariant:
  "sorted_wrt TPSetCmp xs \<Longrightarrow> length xs \<le> capacity \<Longrightarrow>
   sorted_wrt TPSetCmp (add_all capacity xs tpss) \<and> length (add_all capacity xs tpss) \<le> capacity"
  by (induction tpss arbitrary: xs) (simp_all add: sorted_add length_add)

lemma add_rejected:
  assumes "sorted_wrt TPSetCmp xs" and "length xs \<le> capacity"
    and "start_time tps \<in> start_time ` set xs"
  shows "add capacity xs tps = (xs, False)"
proof -
  have "\<not> snd (set_insert TPSetCmp tps xs)"
    using assms by (simp add: set_insert_flag)
  moreover from this have "fst (set_insert TPSetCmp tps xs) = xs"
    by (rule set_insert_rejected)
  ultimately show ?thesis
    using assms(2) by (simp add: add_eq)
qed

text \<open>The scenario of the spec: capacity 3 and start times 10, 20, 30, 40 leave 20, 30, 40.\<close>

lemma add_all_evicts_oldest:
  "map start_time
     (add_all 3 []
        [\<lparr>start_time = 10, end_time = 11, payload = 0\<rparr>,
         \<lparr>start_time = 20, end_time = 21, payload = 0\<rparr>,
         \<lparr>start_time = 30, end_time = 31, payload = 0\<rparr>,
         \<lparr>start_time = 40, end_time = 41, payload = 0\<rparr>])
   = [20, 30, 40]"
  by (simp add: add_def TPSetCmp_def)

text \<open>
  C8. After any sequence of calls of \<open>add\<close> from the empty buffer, and after one more
  call, no two stored sets have the same \<open>start_time\<close>. \<open>add\<close> returns false
  exactly when a set with the \<open>start_time\<close> of its argument is stored; the buffer is
  then unchanged, and in every case at most one stored set has that \<open>start_time\<close>.
\<close>

theorem buffer_start_times_unique:
  "distinct (map start_time (add_all capacity [] tpss))
   \<and> distinct (map start_time (fst (add capacity (add_all capacity [] tpss) tps)))
   \<and> snd (add capacity (add_all capacity [] tpss) tps)
       = (start_time tps \<notin> start_time ` set (add_all capacity [] tpss))
   \<and> (start_time tps \<in> start_time ` set (add_all capacity [] tpss)
        \<longrightarrow> add capacity (add_all capacity [] tpss) tps
              = (add_all capacity [] tpss, False))
   \<and> length (filter (\<lambda>stored. start_time stored = start_time tps)
               (fst (add capacity (add_all capacity [] tpss) tps))) \<le> 1"
proof -
  let ?buf = "add_all capacity [] tpss"
  have inv: "sorted_wrt TPSetCmp ?buf" "length ?buf \<le> capacity"
    using add_all_invariant [of "[]" capacity tpss] by simp_all
  have d: "distinct (map start_time (fst (add capacity ?buf tps)))"
    using inv by (simp add: sorted_add sorted_distinct_start_time)
  have "length (filter (\<lambda>stored. start_time stored = start_time tps) ys) \<le> 1"
    if "distinct (map start_time ys)" for ys :: "TPSet list"
    using that by (induction ys) (auto simp add: filter_empty_conv image_iff)
  from this [OF d] have one: "length (filter (\<lambda>stored. start_time stored = start_time tps)
               (fst (add capacity ?buf tps))) \<le> 1" .
  have flag: "snd (add capacity ?buf tps) = (start_time tps \<notin> start_time ` set ?buf)"
    using inv(1) by (simp add: add_eq set_insert_flag)
  show ?thesis
    using inv d one flag by (simp add: sorted_distinct_start_time add_rejected)
qed

theorem buffer_start_times_unique_witness:
  "start_time \<lparr>start_time = 10, end_time = 99, payload = 7\<rparr>
     \<in> start_time ` set (add_all 3 [] [\<lparr>start_time = 20, end_time = 25, payload = 2\<rparr>,
                                        \<lparr>start_time = 10, end_time = 15, payload = 1\<rparr>])
   \<and> add 3 (add_all 3 [] [\<lparr>start_time = 20, end_time = 25, payload = 2\<rparr>,
                           \<lparr>start_time = 10, end_time = 15, payload = 1\<rparr>])
        \<lparr>start_time = 10, end_time = 99, payload = 7\<rparr>
     = ([\<lparr>start_time = 10, end_time = 15, payload = 1\<rparr>,
         \<lparr>start_time = 20, end_time = 25, payload = 2\<rparr>], False)"
proof -
  have buf: "add_all 3 [] [\<lparr>start_time = 20, end_time = 25, payload = 2\<rparr>,
                           \<lparr>start_time = 10, end_time = 15, payload = 1\<rparr>]
             = [\<lparr>start_time = 10, end_time = 15, payload = 1\<rparr>,
                \<lparr>start_time = 20, end_time = 25, payload = 2\<rparr>]"
    by (simp add: add_def TPSetCmp_def)
  show ?thesis
    using buffer_start_times_unique
            [of 3 "[\<lparr>start_time = 20, end_time = 25, payload = 2\<rparr>,
                    \<lparr>start_time = 10, end_time = 15, payload = 1\<rparr>]"
                "\<lparr>start_time = 10, end_time = 99, payload = 7\<rparr>"]
    unfolding buf by simp
qed

section \<open>From a timing signal to the trigger type\<close>

lemma unat_ucast_32_16: "unat (ucast (w :: 32 word) :: 16 word) = unat w mod 65536"
  by (simp only: unsigned_ucast_eq) (simp add: take_bit_eq_mod)

lemma fst_TimeStampedDataToTriggerCandidate:
  "type (fst (TimeStampedDataToTriggerCandidate m data)) = kTiming
   \<and> detid (fst (TimeStampedDataToTriggerCandidate m data)) = ucast (signal_type data)
   \<and> time_candidate (fst (TimeStampedDataToTriggerCandidate m data)) = time_stamp data"
  by (simp add: TimeStampedDataToTriggerCandidate_def split: prod.splits)

text \<open>
  C10, as the claim states it, fails: the detector id of the candidate is not the signal
  type when the signal type does not fit 16 bits. For the configured signal type 65536
  the detector id is 0.
\<close>

theorem detid_is_not_signal_type:
  "signal_type \<lparr>signal_type = 65536, time_stamp = 1000, counter = 0\<rparr>
     \<in> dom (do_conf Map.empty example_conf)
   \<and> unat (detid (fst (TimeStampedDataToTriggerCandidate (do_conf Map.empty example_conf)
                  \<lparr>signal_type = 65536, time_stamp = 1000, counter = 0\<rparr>))) = 0
   \<and> unat (signal_type \<lparr>signal_type = 65536, time_stamp = 1000, counter = 0\<rparr>) = 65536"
  by (simp add: do_conf_def example_conf_def TimeStampedDataToTriggerCandidate_def
      subscript_def)

text \<open>
  C10, amended. For a signal type \<open>s\<close> in the offsets map, the candidate has type
  \<open>kTiming\<close> and its detector id is \<open>s mod 65536\<close>, the 16-bit cast of \<open>s\<close>,
  which is \<open>s\<close> when \<open>s < 65536\<close>; a decision built from it with pass-through
  enabled has the trigger type \<open>s mod 256\<close>, which is \<open>s\<close> when \<open>s < 256\<close>.
\<close>

theorem timing_signal_type_round_trip:
  assumes "signal_type data \<in> dom m"
  shows "type (fst (TimeStampedDataToTriggerCandidate m data)) = kTiming
   \<and> unat (detid (fst (TimeStampedDataToTriggerCandidate m data)))
       = unat (signal_type data) mod 65536
   \<and> (unat (signal_type data) < 65536
        \<longrightarrow> unat (detid (fst (TimeStampedDataToTriggerCandidate m data)))
              = unat (signal_type data))
   \<and> (m_hsi_passthrough s
        \<longrightarrow> unat (trigger_type
                    (fst (create_decision s (fst (TimeStampedDataToTriggerCandidate m data)))))
              = unat (signal_type data) mod 256)
   \<and> (m_hsi_passthrough s \<and> unat (signal_type data) < 256
        \<longrightarrow> unat (trigger_type
                    (fst (create_decision s (fst (TimeStampedDataToTriggerCandidate m data)))))
              = unat (signal_type data))"
proof -
  let ?tc = "fst (TimeStampedDataToTriggerCandidate m data)"
  have tc: "type ?tc = kTiming" "unat (detid ?tc) = unat (signal_type data) mod 65536"
    by (simp_all add: fst_TimeStampedDataToTriggerCandidate unat_ucast_32_16)
  have "unat (signal_type data) mod 65536 mod 256 = unat (signal_type data) mod 256"
    by (simp add: mod_mod_cancel)
  with tc have "unat (trigger_type (fst (create_decision s ?tc)))
                = unat (signal_type data) mod 256" if "m_hsi_passthrough s"
    using that by (simp add: unat_trigger_type)
  with tc show ?thesis by simp
qed

theorem timing_signal_type_round_trip_witness:
  "signal_type \<lparr>signal_type = 261, time_stamp = 1000, counter = 0\<rparr>
     \<in> dom (do_conf Map.empty example_conf)
   \<and> type (fst (TimeStampedDataToTriggerCandidate (do_conf Map.empty example_conf)
                  \<lparr>signal_type = 261, time_stamp = 1000, counter = 0\<rparr>)) = kTiming
   \<and> unat (detid (fst (TimeStampedDataToTriggerCandidate (do_conf Map.empty example_conf)
                  \<lparr>signal_type = 261, time_stamp = 1000, counter = 0\<rparr>))) = 261
   \<and> m_hsi_passthrough (example_module\<lparr>m_hsi_passthrough := True\<rparr>)
   \<and> unat (trigger_type
        (fst (create_decision (example_module\<lparr>m_hsi_passthrough := True\<rparr>)
               (fst (TimeStampedDataToTriggerCandidate (do_conf Map.empty example_conf)
                  \<lparr>signal_type = 261, time_stamp = 1000, counter = 0\<rparr>))))) = 5
   \<and> signal_type \<lparr>signal_type = 1, time_stamp = 1000, counter = 0\<rparr>
     \<in> dom (do_conf Map.empty example_conf)
   \<and> unat (1 :: 32 word) < 256
   \<and> unat (trigger_type
        (fst (create_decision (example_module\<lparr>m_hsi_passthrough := True\<rparr>)
               (fst (TimeStampedDataToTriggerCandidate (do_conf Map.empty example_conf)
                  \<lparr>signal_type = 1, time_stamp = 1000, counter = 0\<rparr>))))) = 1"
proof -
  have a: "signal_type \<lparr>signal_type = 261, time_stamp = 1000, counter = 0\<rparr>
     \<in> dom (do_conf Map.empty example_conf)"
    and b: "signal_type \<lparr>signal_type = 1, time_stamp = 1000, counter = 0\<rparr>
     \<in> dom (do_conf Map.empty example_conf)"
    by (simp_all add: do_conf_def example_conf_def)
  have p: "m_hsi_passthrough (example_module\<lparr>m_hsi_passthrough := True\<rparr>)"
    by simp
  show ?thesis
    using timing_signal_type_round_trip
            [OF a, of "example_module\<lparr>m_hsi_passthrough := True\<rparr>"]
          timing_signal_type_round_trip
            [OF b, of "example_module\<lparr>m_hsi_passthrough := True\<rparr>"] a b
    by simp
qed

end
